theory Spec2Isabelle
  imports Complex_Main "HOL-Library.Word"
begin

section \<open>Streaming transcription with voice-activity events\<close>

text \<open>
  A shallow embedding of
  \<^verbatim>\<open>speech/snippets/transcribe_streaming_voice_activity_events.py\<close>.
  The function reads a file, cuts its bytes into chunks, wraps every chunk into an
  audio request, puts one configuration request in front, hands the request stream to
  the speech client, and iterates over the responses, printing a line per voice-activity
  event and per transcript result while it collects the responses.

  The file's bytes and the speech client are the two things the function takes from
  outside; both are parameters of the model.  Lengths and offsets are never negative
  here (\<open>len(content)\<close>, \<open>len(content) // 5\<close>, and the offsets of
  \<open>range(0, len(content), chunk_length)\<close>), so they are natural numbers, on which
  \<open>div\<close> is Python's \<open>//\<close>.
\<close>

subsection \<open>Errors\<close>

text \<open>
  The two exceptions the function's own statements can raise: \<open>range\<close> with a zero
  step raises \<open>ValueError\<close>, and indexing an empty sequence raises \<open>IndexError\<close>.
\<close>

datatype error = ValueError | IndexError

subsection \<open>Bytes, range and slices\<close>

type_synonym byte = "8 word"

text \<open>
  \<open>range(start, stop, step)\<close> for a positive step: the offsets \<open>start\<close>,
  \<open>start + step\<close>, ... as long as they stay below \<open>stop\<close>.
\<close>

function range_from :: "nat \<Rightarrow> nat \<Rightarrow> nat \<Rightarrow> nat list" where
  "range_from start stop step =
     (if 0 < step \<and> start < stop then start # range_from (start + step) stop step else [])"
  by pat_completeness auto
termination
  by (relation "measure (\<lambda>(start, stop, step). stop - start)") auto

declare range_from.simps [simp del]

text \<open>\<open>range\<close> itself: a zero step is refused with \<open>ValueError\<close>, whatever the bounds.\<close>

definition range_py :: "nat \<Rightarrow> nat \<Rightarrow> nat \<Rightarrow> error + nat list" where
  "range_py start stop step =
     (if step = 0 then Inl ValueError else Inr (range_from start stop step))"

text \<open>
  \<open>xs[i:j]\<close> for offsets \<open>0 \<le> i\<close>, \<open>0 \<le> j\<close>: both ends are clipped to the length,
  and the slice is empty when \<open>j \<le> i\<close>.
\<close>

definition slice_py :: "'a list \<Rightarrow> nat \<Rightarrow> nat \<Rightarrow> 'a list" where
  "slice_py xs i j = take (j - i) (drop i xs)"

subsection \<open>Chunking (lines 43 to 47)\<close>

text \<open>
  \<^verbatim>\<open>
  chunk_length = len(content) // 5
  stream = [
      content[start : start + chunk_length]
      for start in range(0, len(content), chunk_length)
  ]
  \<close>
  The list comprehension is evaluated at once; when \<open>range\<close> raises, no chunk exists.
\<close>

definition chunk_stream :: "'a list \<Rightarrow> error + 'a list list" where
  "chunk_stream content =
     (let chunk_length = length content div 5 in
      case range_py 0 (length content) chunk_length of
        Inl e \<Rightarrow> Inl e
      | Inr starts \<Rightarrow>
          Inr (map (\<lambda>start. slice_py content start (start + chunk_length)) starts))"

subsection \<open>Messages of the speech client\<close>

text \<open>
  The request and response messages belong to the client library
  (\<open>google.cloud.speech_v2.types.cloud_speech\<close>); they are modelled with the fields
  this function sets or reads.  An unset string field of a message is the empty string.
  The two payloads of a request, \<open>streaming_config\<close> and \<open>audio\<close>, are
  alternatives of one field of the message.
\<close>

datatype AutoDetectDecodingConfig = AutoDetectDecodingConfig

record RecognitionConfig =
  auto_decoding_config :: "AutoDetectDecodingConfig option"
  language_codes :: "string list"
  model :: string

record StreamingRecognitionFeatures =
  enable_voice_activity_events :: bool

record StreamingRecognitionConfig =
  config :: RecognitionConfig
  streaming_features :: StreamingRecognitionFeatures

datatype streaming_request =
    Unset
  | Streaming_config StreamingRecognitionConfig
  | Audio "byte list"

record StreamingRecognizeRequest =
  recognizer :: string
  streaming_request :: streaming_request

datatype SpeechEventType =
    SPEECH_EVENT_TYPE_UNSPECIFIED
  | END_OF_SINGLE_UTTERANCE
  | SPEECH_ACTIVITY_BEGIN
  | SPEECH_ACTIVITY_END

record SpeechRecognitionAlternative =
  transcript :: string

record StreamingRecognitionResult =
  alternatives :: "SpeechRecognitionAlternative list"

record StreamingRecognizeResponse =
  results :: "StreamingRecognitionResult list"
  speech_event_type :: SpeechEventType

subsection \<open>Building the requests (lines 48 to 73)\<close>

text \<open>
  \<open>cloud_speech.StreamingRecognizeRequest(audio=audio)\<close>, for every chunk.  The
  source builds the audio requests with a generator expression over \<open>stream\<close>; the
  list is the sequence of requests it yields, in the order of \<open>stream\<close>.
\<close>

definition audio_request :: "byte list \<Rightarrow> StreamingRecognizeRequest" where
  "audio_request audio = \<lparr>recognizer = [], streaming_request = Audio audio\<rparr>"

definition audio_requests :: "byte list list \<Rightarrow> StreamingRecognizeRequest list" where
  "audio_requests stream = map audio_request stream"

text \<open>
  \<^verbatim>\<open>
  recognition_config = cloud_speech.RecognitionConfig(
      auto_decoding_config=cloud_speech.AutoDetectDecodingConfig(),
      language_codes=["en-US"],
      model="long",
  )
  streaming_features = cloud_speech.StreamingRecognitionFeatures(
      enable_voice_activity_events=True
  )
  streaming_config = cloud_speech.StreamingRecognitionConfig(
      config=recognition_config, streaming_features=streaming_features
  )
  config_request = cloud_speech.StreamingRecognizeRequest(
      recognizer=f"projects/{project_id}/locations/global/recognizers/_",
      streaming_config=streaming_config,
  )
  \<close>
\<close>

definition recognition_config :: RecognitionConfig where
  "recognition_config =
     \<lparr>auto_decoding_config = Some AutoDetectDecodingConfig,
      language_codes = [''en-US''],
      model = ''long''\<rparr>"

definition streaming_features_value :: StreamingRecognitionFeatures where
  "streaming_features_value = \<lparr>enable_voice_activity_events = True\<rparr>"

definition streaming_config :: StreamingRecognitionConfig where
  "streaming_config =
     \<lparr>config = recognition_config, streaming_features = streaming_features_value\<rparr>"

definition config_request :: "string \<Rightarrow> StreamingRecognizeRequest" where
  "config_request project_id =
     \<lparr>recognizer = ''projects/'' @ project_id @ ''/locations/global/recognizers/_'',
      streaming_request = Streaming_config streaming_config\<rparr>"

text \<open>
  The generator \<open>requests\<close>: \<open>yield config\<close>, then \<open>yield from audio\<close>.  The list is
  the sequence of values it yields when it is run to its end.
\<close>

definition requests ::
  "StreamingRecognizeRequest \<Rightarrow> StreamingRecognizeRequest list \<Rightarrow> StreamingRecognizeRequest list"
where
  "requests config_req audio = config_req # audio"

text \<open>Which payload a request carries.\<close>

fun is_config_request :: "StreamingRecognizeRequest \<Rightarrow> bool" where
  "is_config_request r =
     (case streaming_request r of Streaming_config _ \<Rightarrow> True | _ \<Rightarrow> False)"

fun audio_of :: "StreamingRecognizeRequest \<Rightarrow> byte list option" where
  "audio_of r = (case streaming_request r of Audio a \<Rightarrow> Some a | _ \<Rightarrow> None)"

subsection \<open>The response loop (lines 79 to 95)\<close>

text \<open>
  The loop's state: the list \<open>responses\<close> and the lines printed so far.  A step gives
  the state it reached and the exception it raised, if any; what was appended or printed
  before the exception stays in the state.
\<close>

record loop_state =
  responses :: "StreamingRecognizeResponse list"
  stdout :: "string list"

definition print :: "string \<Rightarrow> loop_state \<Rightarrow> loop_state" where
  "print line st = st\<lparr>stdout := stdout st @ [line]\<rparr>"

text \<open>
  \<^verbatim>\<open>
  for result in response.results:
      print(f"Transcript: {result.alternatives[0].transcript}")
  \<close>
  \<open>alternatives[0]\<close> raises \<open>IndexError\<close> on an empty list.
\<close>

fun print_results :: "StreamingRecognitionResult list \<Rightarrow> loop_state \<Rightarrow> loop_state \<times> error option" where
  "print_results [] st = (st, None)"
| "print_results (result # rest) st =
     (case alternatives result of
        [] \<Rightarrow> (st, Some IndexError)
      | alternative # _ \<Rightarrow>
          print_results rest (print (''Transcript: '' @ transcript alternative) st))"

text \<open>The body of the loop over \<open>responses_iterator\<close>, for one response.\<close>

definition loop_body :: "StreamingRecognizeResponse \<Rightarrow> loop_state \<Rightarrow> loop_state \<times> error option" where
  "loop_body response st =
     (let st1 = st\<lparr>responses := responses st @ [response]\<rparr>;
          st2 = (if speech_event_type response = SPEECH_ACTIVITY_BEGIN
                 then print ''Speech started.'' st1 else st1);
          st3 = (if speech_event_type response = SPEECH_ACTIVITY_END
                 then print ''Speech ended.'' st2 else st2)
      in print_results (results response) st3)"

fun response_loop :: "StreamingRecognizeResponse list \<Rightarrow> loop_state \<Rightarrow> loop_state \<times> error option" where
  "response_loop [] st = (st, None)"
| "response_loop (response # rest) st =
     (case loop_body response st of
        (st', Some e) \<Rightarrow> (st', Some e)
      | (st', None) \<Rightarrow> response_loop rest st')"

text \<open>
  Lines 79 to 95 as a whole: \<open>responses = []\<close>, the loop, \<open>return responses\<close>.  The
  first component is what the function returns or raises, the second what it printed.
\<close>

definition consume_responses ::
  "StreamingRecognizeResponse list \<Rightarrow> (error + StreamingRecognizeResponse list) \<times> string list"
where
  "consume_responses responses_iterator =
     (case response_loop responses_iterator \<lparr>responses = [], stdout = []\<rparr> of
        (st, Some e) \<Rightarrow> (Inl e, stdout st)
      | (st, None) \<Rightarrow> (Inr (responses st), stdout st))"

subsection \<open>The whole function\<close>

text \<open>
  What a call leaves behind: the value returned or the exception raised, the lines
  printed, and the request streams handed to \<open>client.streaming_recognize\<close> (none when
  the function fails before the call).
\<close>

record outcome =
  returned :: "error + StreamingRecognizeResponse list"
  printed :: "string list"
  client_calls :: "StreamingRecognizeRequest list list"

text \<open>
  \<open>streaming_recognize\<close> stands for the client: it takes the request stream and gives
  the responses in the order they arrive.  \<open>content\<close> is what \<open>f.read()\<close> returned.
\<close>

definition transcribe_streaming_voice_activity_events ::
  "(StreamingRecognizeRequest list \<Rightarrow> StreamingRecognizeResponse list)
     \<Rightarrow> string \<Rightarrow> byte list \<Rightarrow> outcome"
where
  "transcribe_streaming_voice_activity_events streaming_recognize project_id content =
     (case chunk_stream content of
        Inl e \<Rightarrow> \<lparr>returned = Inl e, printed = [], client_calls = []\<rparr>
      | Inr stream \<Rightarrow>
          (let request_stream = requests (config_request project_id) (audio_requests stream);
               responses_iterator = streaming_recognize request_stream;
               (result, lines) = consume_responses responses_iterator
           in \<lparr>returned = result, printed = lines, client_calls = [request_stream]\<rparr>))"

text \<open>
  What the body of the loop prints, and whether it raises, when it is run on one
  response from a state with nothing collected and nothing printed.
\<close>

definition response_output :: "StreamingRecognizeResponse \<Rightarrow> string list" where
  "response_output response = stdout (fst (loop_body response \<lparr>responses = [], stdout = []\<rparr>))"

definition response_error :: "StreamingRecognizeResponse \<Rightarrow> error option" where
  "response_error response = snd (loop_body response \<lparr>responses = [], stdout = []\<rparr>)"

section \<open>Properties of the chunking\<close>

lemma range_from_step:
  "0 < step \<Longrightarrow> start < stop \<Longrightarrow>
     range_from start stop step = start # range_from (start + step) stop step"
  by (subst range_from.simps) simp

lemma range_from_done:
  "stop \<le> start \<Longrightarrow> range_from start stop step = []"
  by (subst range_from.simps) simp

lemma range_from_zero_step:
  "range_from start stop 0 = []"
  by (subst range_from.simps) simp

lemma concat_slices:
  "0 < step \<Longrightarrow>
     concat (map (\<lambda>s. slice_py xs s (s + step)) (range_from start (length xs) step))
       = drop start xs"
proof (induction start "length xs" step rule: range_from.induct)
  case (1 start step)
  show ?case
  proof (cases "start < length xs")
    case True
    have "take step (drop start xs) @ drop (start + step) xs = drop start xs"
      by (metis add.commute append_take_drop_id drop_drop)
    with 1 True show ?thesis
      by (simp add: range_from_step slice_py_def)
  next
    case False
    then show ?thesis
      by (simp add: range_from_done)
  qed
qed

lemma range_from_bounds:
  "0 < step \<Longrightarrow>
     stop \<le> start + length (range_from start stop step) * step \<and>
     (start < stop \<longrightarrow>
        0 < length (range_from start stop step) \<and>
        start + (length (range_from start stop step) - 1) * step < stop)"
proof (induction start stop step rule: range_from.induct)
  case (1 start stop step)
  show ?case
  proof (cases "start < stop")
    case True
    note lt = this
    let ?n = "length (range_from (start + step) stop step)"
    have len: "length (range_from start stop step) = Suc ?n"
      using 1(2) lt by (simp add: range_from_step)
    have ih: "stop \<le> start + step + ?n * step \<and>
              (start + step < stop \<longrightarrow> 0 < ?n \<and> start + step + (?n - 1) * step < stop)"
      using 1(1) 1(2) lt by simp
    have upper: "stop \<le> start + Suc ?n * step"
      using ih by (simp add: add.assoc)
    have lower: "start + ?n * step < stop"
    proof (cases "start + step < stop")
      case True
      with ih have pos: "0 < ?n" and b: "start + step + (?n - 1) * step < stop" by simp_all
      from pos have "step + (?n - 1) * step = ?n * step"
        by (cases ?n) simp_all
      with b show ?thesis by (simp add: add.assoc)
    next
      case False
      then have "?n = 0" by (simp add: range_from_done)
      with lt show ?thesis by simp
    qed
    show ?thesis using upper lower len by simp
  next
    case False
    then show ?thesis by (simp add: range_from_done)
  qed
qed

lemma ceiling_from_bounds:
  assumes c: "0 < (c::nat)" and n: "0 < n" and up: "L \<le> n * c" and low: "(n - 1) * c < L"
  shows "\<lceil>real L / real c\<rceil> = int n"
proof -
  have "real ((n - 1) * c) < real L" using low by (simp only: of_nat_less_iff)
  then have "(real n - 1) * real c < real L" using n by (simp add: of_nat_diff)
  then have a: "of_int (int n) - 1 < real L / real c"
    using c by (simp add: pos_less_divide_eq)
  have "real L \<le> real (n * c)" using up by (simp only: of_nat_le_iff)
  then have b: "real L / real c \<le> of_int (int n)"
    using c by (simp add: pos_divide_le_eq)
  show ?thesis using a b by (rule ceiling_unique)
qed

lemma range_from_nth:
  "0 < step \<Longrightarrow> i < length (range_from start stop step) \<Longrightarrow>
     range_from start stop step ! i = start + i * step"
proof (induction start stop step arbitrary: i rule: range_from.induct)
  case (1 start stop step)
  show ?case
  proof (cases "start < stop")
    case True
    then show ?thesis using 1 by (cases i) (simp_all add: range_from_step)
  next
    case False
    then show ?thesis using 1 by (simp add: range_from_done)
  qed
qed

lemma length_slice_py: "length (slice_py xs i j) = min (j - i) (length xs - i)"
  by (simp add: slice_py_def)

text \<open>The chunks of a buffer for any positive chunk length.\<close>

lemma chunk_count_bounds:
  assumes "0 < c" and "0 < length xs"
  defines "n \<equiv> length (range_from 0 (length xs) c)"
  shows "0 < n" and "length xs \<le> n * c" and "(n - 1) * c < length xs"
  using range_from_bounds [OF assms(1), of "length xs" 0] assms(2) by (simp_all add: n_def)

lemma chunk_nth_length:
  assumes c: "0 < c" and i: "i < length (range_from 0 (length xs) c)"
  shows "length (map (\<lambda>s. slice_py xs s (s + c)) (range_from 0 (length xs) c) ! i)
           = min c (length xs - i * c)"
  using i by (simp add: range_from_nth [OF c i] length_slice_py)

lemma chunk_inner_length:
  assumes c: "0 < c" and i: "Suc i < length (range_from 0 (length xs) c)"
  shows "length (map (\<lambda>s. slice_py xs s (s + c)) (range_from 0 (length xs) c) ! i) = c"
proof -
  let ?n = "length (range_from 0 (length xs) c)"
  have pos: "0 < length xs"
    using i by (cases "length xs") (simp_all add: range_from_done)
  have low: "(?n - 1) * c < length xs"
    using chunk_count_bounds(3) [OF c pos] .
  have "Suc i \<le> ?n - 1" using i by simp
  then have "Suc i * c \<le> (?n - 1) * c" by (rule mult_le_mono1)
  with low have "i * c + c < length xs" by simp
  moreover have "i < ?n" using i by simp
  ultimately show ?thesis
    using chunk_nth_length [OF c, of i xs] by simp
qed

lemma chunk_last_length:
  assumes c: "0 < c" and pos: "0 < length xs"
  defines "n \<equiv> length (range_from 0 (length xs) c)"
  shows "length (last (map (\<lambda>s. slice_py xs s (s + c)) (range_from 0 (length xs) c)))
           = length xs - (n - 1) * c"
proof -
  let ?cs = "map (\<lambda>s. slice_py xs s (s + c)) (range_from 0 (length xs) c)"
  have n: "0 < n" and up: "length xs \<le> n * c" and low: "(n - 1) * c < length xs"
    using chunk_count_bounds [OF c pos] by (simp_all add: n_def)
  have ne: "?cs \<noteq> []" using n by (auto simp: n_def)
  have "last ?cs = ?cs ! (n - 1)"
    using ne by (simp add: last_conv_nth n_def)
  moreover have "length (?cs ! (n - 1)) = min c (length xs - (n - 1) * c)"
    using n by (intro chunk_nth_length [OF c]) (simp add: n_def)
  moreover have "n * c = (n - 1) * c + c" using n by (cases n) simp_all
  ultimately show ?thesis using up by simp
qed

lemma chunk_last_short_iff:
  assumes c: "0 < c" and pos: "0 < length xs"
  defines "n \<equiv> length (range_from 0 (length xs) c)"
  shows "length xs - (n - 1) * c < c \<longleftrightarrow> \<not> c dvd length xs"
proof -
  have n: "0 < n" and up: "length xs \<le> n * c" and low: "(n - 1) * c < length xs"
    using chunk_count_bounds [OF c pos] by (simp_all add: n_def)
  have split: "n * c = (n - 1) * c + c" using n by (cases n) simp_all
  have "c dvd length xs \<longleftrightarrow> length xs = n * c"
  proof
    assume "c dvd length xs"
    then obtain k where k: "length xs = k * c" by (auto simp: dvd_def mult.commute)
    from low k have "n - 1 < k" using c by simp
    moreover from up k have "k \<le> n" using c by simp
    ultimately have "k = n" by simp
    with k show "length xs = n * c" by simp
  next
    assume "length xs = n * c"
    then show "c dvd length xs" by simp
  qed
  then show ?thesis using up low split by auto
qed


lemma chunk_stream_ok:
  "0 < length content div 5 \<Longrightarrow>
     chunk_stream content =
       Inr (map (\<lambda>s. slice_py content s (s + length content div 5))
              (range_from 0 (length content) (length content div 5)))"
  by (simp add: chunk_stream_def range_py_def Let_def)

text \<open>
  C1.  When the chunk length \<open>L // 5\<close> of a buffer of length \<open>L\<close> is positive, the
  chunking succeeds, and its chunks, concatenated in the order they are produced, are
  the buffer itself: nothing is missing, nothing is repeated.
\<close>

theorem chunks_concat_roundtrip:
  "0 < length content div 5 \<Longrightarrow>
     (\<exists>stream. chunk_stream content = Inr stream \<and> concat stream = content)"
  using concat_slices [of "length content div 5" content 0]
  by (simp add: chunk_stream_ok)

theorem chunks_concat_roundtrip_witness:
  "0 < length [1, 2, 3, 4, 5, 6, 7 :: byte] div 5 \<and>
   (\<exists>stream. chunk_stream [1, 2, 3, 4, 5, 6, 7 :: byte] = Inr stream \<and>
      concat stream = [1, 2, 3, 4, 5, 6, 7])"
  using chunks_concat_roundtrip [of "[1, 2, 3, 4, 5, 6, 7 :: byte]"] by simp

subsection \<open>Number and lengths of the chunks\<close>

lemma chunk_stream_facts:
  assumes c: "0 < length content div 5" and s: "chunk_stream content = Inr stream"
  defines "n \<equiv> length (range_from 0 (length content) (length content div 5))"
  shows "stream = map (\<lambda>s. slice_py content s (s + length content div 5))
                    (range_from 0 (length content) (length content div 5))"
    and "length stream = n"
    and "0 < length content"
  using s c by (auto simp: chunk_stream_ok n_def)

lemma chunk_shape:
  assumes c: "0 < length content div 5" and s: "chunk_stream content = Inr stream"
  shows "int (length stream) = \<lceil>real (length content) / real (length content div 5)\<rceil>"
    and "\<forall>i. Suc i < length stream \<longrightarrow> length (stream ! i) = length content div 5"
    and "stream \<noteq> []"
    and "0 < length (last stream) \<and> length (last stream) \<le> length content div 5"
    and "length (last stream) < length content div 5
           \<longleftrightarrow> \<not> (length content div 5) dvd length content"
proof -
  let ?c = "length content div 5"
  let ?n = "length (range_from 0 (length content) ?c)"
  note f = chunk_stream_facts [OF c s]
  have pos: "0 < length content" by (rule f(3))
  note b = chunk_count_bounds [OF c pos]
  show "int (length stream) = \<lceil>real (length content) / real ?c\<rceil>"
    using ceiling_from_bounds [OF c b] f(2) by simp
  show "\<forall>i. Suc i < length stream \<longrightarrow> length (stream ! i) = ?c"
  proof (intro allI impI)
    fix i assume "Suc i < length stream"
    then have "Suc i < ?n" using f(2) by simp
    then show "length (stream ! i) = ?c"
      unfolding f(1) by (rule chunk_inner_length [OF c])
  qed
  show "stream \<noteq> []" using b(1) f(2) by auto
  have last: "length (last stream) = length content - (?n - 1) * ?c"
    using chunk_last_length [OF c pos] by (simp add: f(1))
  have split: "?n * ?c = (?n - 1) * ?c + ?c" using b(1) by (cases ?n) simp_all
  have up: "length content \<le> (?n - 1) * ?c + ?c" using b(2) split by simp
  have arith: "\<And>L m k l::nat. l = L - m \<Longrightarrow> L \<le> m + k \<Longrightarrow> m < L \<Longrightarrow> 0 < l \<and> l \<le> k"
    by linarith
  show "0 < length (last stream) \<and> length (last stream) \<le> ?c"
    using last up b(3) by (rule arith)
  show "length (last stream) < ?c \<longleftrightarrow> \<not> ?c dvd length content"
    using chunk_last_short_iff [OF c pos] last by simp
qed


text \<open>
  C3.  When the chunk length \<open>c = L // 5\<close> is positive, the chunking succeeds and the
  number of chunks is \<open>ceil(L / c)\<close>; every chunk but the last has exactly \<open>c\<close>
  bytes; the last chunk has between 1 and \<open>c\<close> bytes, and fewer than \<open>c\<close> exactly
  when \<open>c\<close> does not divide \<open>L\<close>.
\<close>

theorem chunk_count_and_lengths:
  "0 < length content div 5 \<Longrightarrow>
     (\<exists>stream. chunk_stream content = Inr stream \<and>
        int (length stream) = \<lceil>real (length content) / real (length content div 5)\<rceil> \<and>
        (\<forall>i. Suc i < length stream \<longrightarrow> length (stream ! i) = length content div 5) \<and>
        stream \<noteq> [] \<and>
        (0 < length (last stream) \<and> length (last stream) \<le> length content div 5) \<and>
        (length (last stream) < length content div 5
           \<longleftrightarrow> \<not> (length content div 5) dvd length content))"
proof -
  assume c: "0 < length content div 5"
  then obtain stream where s: "chunk_stream content = Inr stream"
    by (simp add: chunk_stream_ok)
  show ?thesis
    using s chunk_shape [OF c s] by blast
qed

theorem chunk_count_and_lengths_witness:
  "0 < length [1, 2, 3, 4, 5, 6, 7, 8, 9, 10, 11 :: byte] div 5 \<and>
   (\<exists>stream. chunk_stream [1, 2, 3, 4, 5, 6, 7, 8, 9, 10, 11 :: byte] = Inr stream \<and>
      int (length stream)
        = \<lceil>real (length [1, 2, 3, 4, 5, 6, 7, 8, 9, 10, 11 :: byte])
             / real (length [1, 2, 3, 4, 5, 6, 7, 8, 9, 10, 11 :: byte] div 5)\<rceil> \<and>
      (\<forall>i. Suc i < length stream \<longrightarrow>
         length (stream ! i) = length [1, 2, 3, 4, 5, 6, 7, 8, 9, 10, 11 :: byte] div 5) \<and>
      stream \<noteq> [] \<and>
      (0 < length (last stream) \<and>
       length (last stream) \<le> length [1, 2, 3, 4, 5, 6, 7, 8, 9, 10, 11 :: byte] div 5) \<and>
      (length (last stream) < length [1, 2, 3, 4, 5, 6, 7, 8, 9, 10, 11 :: byte] div 5
         \<longleftrightarrow> \<not> (length [1, 2, 3, 4, 5, 6, 7, 8, 9, 10, 11 :: byte] div 5)
                 dvd length [1, 2, 3, 4, 5, 6, 7, 8, 9, 10, 11 :: byte]))"
proof -
  have h: "0 < length [1, 2, 3, 4, 5, 6, 7, 8, 9, 10, 11 :: byte] div 5" by simp
  from h chunk_count_and_lengths [OF h] show ?thesis by (rule conjI)
qed

subsection \<open>The number of chunks is not always five\<close>

lemma chunk_count_range:
  assumes c: "0 < length content div 5" and s: "chunk_stream content = Inr stream"
  shows "5 \<le> length stream \<and> length stream \<le> 9 \<and>
         (length stream = 5 \<longleftrightarrow> 5 dvd length content)"
proof -
  let ?L = "length content"
  let ?c = "?L div 5"
  let ?n = "length stream"
  note f = chunk_stream_facts [OF c s]
  have pos: "0 < ?L" by (rule f(3))
  have n: "0 < ?n" and up: "?L \<le> ?n * ?c" and low: "(?n - 1) * ?c < ?L"
    using chunk_count_bounds [OF c pos] f(2) by simp_all
  have L: "?L = 5 * ?c + ?L mod 5" by simp
  have r: "?L mod 5 < 5" by simp
  have ge: "5 \<le> ?n"
  proof (rule ccontr)
    assume "\<not> 5 \<le> ?n"
    then have "?n \<le> 4" by simp
    then have "?n * ?c \<le> 4 * ?c" by (rule mult_le_mono1)
    with up L c show False by linarith
  qed
  have le: "?n \<le> 9"
  proof (rule ccontr)
    assume "\<not> ?n \<le> 9"
    then have "9 \<le> ?n - 1" by simp
    then have "9 * ?c \<le> (?n - 1) * ?c" by (rule mult_le_mono1)
    with low L r c show False by linarith
  qed
  have iff: "?n = 5 \<longleftrightarrow> 5 dvd ?L"
  proof
    assume "?n = 5"
    with up have "?L \<le> 5 * ?c" by simp
    with L have "?L mod 5 = 0" by linarith
    then show "5 dvd ?L" by (simp add: dvd_eq_mod_eq_0)
  next
    assume "5 dvd ?L"
    then have "?L = 5 * ?c" by simp
    with low have "(?n - 1) * ?c < 5 * ?c" by simp
    then have "?n - 1 < 5" using c by simp
    with ge show "?n = 5" by simp
  qed
  show ?thesis using ge le iff by simp
qed

text \<open>
  C7, as stated, fails: a buffer of 7 bytes has chunk length 1 and is cut into 7
  chunks, not 5.
\<close>

theorem seven_bytes_seven_chunks:
  "0 < length [1, 2, 3, 4, 5, 6, 7 :: byte] div 5 \<and>
   chunk_stream [1, 2, 3, 4, 5, 6, 7 :: byte] = Inr [[1], [2], [3], [4], [5], [6], [7]] \<and>
   length [[1], [2], [3], [4], [5], [6], [7 :: byte]] \<noteq> 5"
  by (simp add: chunk_stream_def range_py_def slice_py_def range_from_step range_from_done)

text \<open>
  C7, amended.  When the chunk length \<open>c = L // 5\<close> is positive, the chunking
  succeeds and the number of chunks is \<open>ceil(L / c)\<close>, which is at least 5 and at
  most 9; it is 5 exactly when \<open>L\<close> is a multiple of 5.
\<close>

theorem chunk_count_five_to_nine:
  "0 < length content div 5 \<Longrightarrow>
     (\<exists>stream. chunk_stream content = Inr stream \<and>
        int (length stream) = \<lceil>real (length content) / real (length content div 5)\<rceil> \<and>
        5 \<le> length stream \<and> length stream \<le> 9 \<and>
        (length stream = 5 \<longleftrightarrow> 5 dvd length content))"
proof -
  assume c: "0 < length content div 5"
  then obtain stream where s: "chunk_stream content = Inr stream"
    by (simp add: chunk_stream_ok)
  show ?thesis
    using s chunk_shape(1) [OF c s] chunk_count_range [OF c s] by blast
qed

theorem chunk_count_five_to_nine_witness:
  "0 < length [1, 2, 3, 4, 5, 6, 7, 8, 9, 10, 11 :: byte] div 5 \<and>
   (\<exists>stream. chunk_stream [1, 2, 3, 4, 5, 6, 7, 8, 9, 10, 11 :: byte] = Inr stream \<and>
      int (length stream)
        = \<lceil>real (length [1, 2, 3, 4, 5, 6, 7, 8, 9, 10, 11 :: byte])
             / real (length [1, 2, 3, 4, 5, 6, 7, 8, 9, 10, 11 :: byte] div 5)\<rceil> \<and>
      5 \<le> length stream \<and> length stream \<le> 9 \<and>
      (length stream = 5 \<longleftrightarrow> 5 dvd length [1, 2, 3, 4, 5, 6, 7, 8, 9, 10, 11 :: byte]))"
proof -
  have h: "0 < length [1, 2, 3, 4, 5, 6, 7, 8, 9, 10, 11 :: byte] div 5" by simp
  from h chunk_count_five_to_nine [OF h] show ?thesis by (rule conjI)
qed

section \<open>Properties of the response loop\<close>

lemma print_results_responses:
  "responses (fst (print_results rs st)) = responses st"
  by (induction rs arbitrary: st) (auto simp: print_def split: list.splits)

lemma print_results_error:
  "snd (print_results rs st)
     = (if \<exists>res \<in> set rs. alternatives res = [] then Some IndexError else None)"
  by (induction rs arbitrary: st) (auto split: list.splits)

lemma print_results_stdout:
  "stdout (fst (print_results rs st))
     = stdout st @ stdout (fst (print_results rs \<lparr>responses = [], stdout = []\<rparr>))"
proof (induction rs arbitrary: st)
  case Nil
  show ?case by simp
next
  case (Cons res rs)
  show ?case
  proof (cases "alternatives res")
    case Nil
    then show ?thesis by simp
  next
    case (Cons a alts)
    then show ?thesis
      using Cons.IH [of "print (''Transcript: '' @ transcript a) st"]
            Cons.IH [of "print (''Transcript: '' @ transcript a) \<lparr>responses = [], stdout = []\<rparr>"]
      by (simp add: print_def)
  qed
qed

lemma loop_body_responses:
  "responses (fst (loop_body r st)) = responses st @ [r]"
  by (simp add: loop_body_def Let_def print_results_responses print_def)

lemma loop_body_error:
  "snd (loop_body r st)
     = (if \<exists>res \<in> set (results r). alternatives res = [] then Some IndexError else None)"
  by (simp add: loop_body_def Let_def print_results_error)

lemma loop_body_stdout:
  "stdout (fst (loop_body r st)) = stdout st @ response_output r"
  unfolding response_output_def loop_body_def Let_def
  by (subst print_results_stdout, subst (2) print_results_stdout) (simp add: print_def)

lemma loop_body_eq:
  "loop_body r st =
     (\<lparr>responses = responses st @ [r], stdout = stdout st @ response_output r\<rparr>,
      response_error r)"
proof -
  have "snd (loop_body r st) = response_error r"
    by (simp add: response_error_def loop_body_error)
  moreover have "fst (loop_body r st)
      = \<lparr>responses = responses st @ [r], stdout = stdout st @ response_output r\<rparr>"
    by (rule loop_state.equality) (simp_all add: loop_body_responses loop_body_stdout)
  ultimately show ?thesis by (simp add: prod_eq_iff)
qed


lemma print_results_lines:
  "stdout (fst (print_results rs st))
     = stdout st @
       map (\<lambda>res. ''Transcript: '' @ transcript (hd (alternatives res)))
         (takeWhile (\<lambda>res. alternatives res \<noteq> []) rs)"
proof (induction rs arbitrary: st)
  case Nil
  show ?case by simp
next
  case (Cons res rs)
  show ?case
  proof (cases "alternatives res")
    case Nil
    then show ?thesis by simp
  next
    case (Cons a alts)
    then show ?thesis
      using Cons.IH [of "print (''Transcript: '' @ transcript a) st"]
      by (simp add: print_def)
  qed
qed

lemma response_output_lines:
  "response_output r =
     (if speech_event_type r = SPEECH_ACTIVITY_BEGIN then [''Speech started.''] else []) @
     (if speech_event_type r = SPEECH_ACTIVITY_END then [''Speech ended.''] else []) @
     map (\<lambda>res. ''Transcript: '' @ transcript (hd (alternatives res)))
       (takeWhile (\<lambda>res. alternatives res \<noteq> []) (results r))"
  by (simp add: response_output_def loop_body_def Let_def print_results_lines print_def)

lemma response_error_iff:
  "response_error r
     = (if \<exists>res \<in> set (results r). alternatives res = [] then Some IndexError else None)"
  by (simp add: response_error_def loop_body_error)

lemma response_loop_responses_ok:
  "\<forall>r \<in> set rs. \<forall>res \<in> set (results r). alternatives res \<noteq> [] \<Longrightarrow>
     snd (response_loop rs st) = None \<and>
     responses (fst (response_loop rs st)) = responses st @ rs"
proof (induction rs arbitrary: st)
  case Nil
  show ?case by simp
next
  case (Cons r rs)
  have e: "response_error r = None"
    using Cons.prems by (simp add: response_error_def loop_body_error)
  show ?case
    using Cons.IH [of "\<lparr>responses = responses st @ [r], stdout = stdout st @ response_output r\<rparr>"]
          Cons.prems
    by (simp add: loop_body_eq e)
qed

lemma response_loop_raises:
  "\<exists>r \<in> set rs. \<exists>res \<in> set (results r). alternatives res = [] \<Longrightarrow>
     snd (response_loop rs st) = Some IndexError"
proof (induction rs arbitrary: st)
  case Nil
  then show ?case by simp
next
  case (Cons r rs)
  show ?case
  proof (cases "\<exists>res \<in> set (results r). alternatives res = []")
    case True
    then have "response_error r = Some IndexError"
      by (simp add: response_error_def loop_body_error)
    then show ?thesis by (simp add: loop_body_eq)
  next
    case False
    then have e: "response_error r = None"
      by (simp add: response_error_def loop_body_error)
    from False Cons.prems
    have "\<exists>r \<in> set rs. \<exists>res \<in> set (results r). alternatives res = []" by auto
    then show ?thesis
      using Cons.IH by (simp add: loop_body_eq e)
  qed
qed

lemma response_loop_stdout_ok:
  "snd (response_loop rs st) = None \<Longrightarrow>
     stdout (fst (response_loop rs st)) = stdout st @ concat (map response_output rs)"
proof (induction rs arbitrary: st)
  case Nil
  show ?case by simp
next
  case (Cons r rs)
  show ?case
  proof (cases "response_error r")
    case None
    with Cons.prems Cons.IH [of "\<lparr>responses = responses st @ [r], stdout = stdout st @ response_output r\<rparr>"]
    show ?thesis by (simp add: loop_body_eq)
  next
    case (Some e)
    with Cons.prems show ?thesis by (simp add: loop_body_eq)
  qed
qed

lemma consume_responses_ok:
  assumes "\<forall>r \<in> set rs. \<forall>res \<in> set (results r). alternatives res \<noteq> []"
  shows "consume_responses rs = (Inr rs, concat (map response_output rs))"
proof -
  let ?st0 = "\<lparr>responses = [], stdout = []\<rparr>"
  obtain st e where l: "response_loop rs ?st0 = (st, e)" by (cases "response_loop rs ?st0")
  from response_loop_responses_ok [OF assms, of ?st0] l
  have e: "e = None" and r: "responses st = rs" by simp_all
  from response_loop_stdout_ok [of rs ?st0] l e
  have "stdout st = concat (map response_output rs)" by simp
  with l e r show ?thesis by (simp add: consume_responses_def)
qed

lemma consume_responses_raises:
  assumes "\<exists>r \<in> set rs. \<exists>res \<in> set (results r). alternatives res = []"
  shows "fst (consume_responses rs) = Inl IndexError"
proof -
  let ?st0 = "\<lparr>responses = [], stdout = []\<rparr>"
  obtain st e where l: "response_loop rs ?st0 = (st, e)" by (cases "response_loop rs ?st0")
  from response_loop_raises [OF assms, of ?st0] l
  have "e = Some IndexError" by simp
  with l show ?thesis by (simp add: consume_responses_def)
qed

section \<open>Properties of the whole function\<close>

lemma transcribe_ok:
  "chunk_stream content = Inr stream \<Longrightarrow>
     transcribe_streaming_voice_activity_events streaming_recognize project_id content =
       \<lparr>returned = fst (consume_responses (streaming_recognize
            (requests (config_request project_id) (audio_requests stream)))),
        printed = snd (consume_responses (streaming_recognize
            (requests (config_request project_id) (audio_requests stream)))),
        client_calls = [requests (config_request project_id) (audio_requests stream)]\<rparr>"
  by (simp add: transcribe_streaming_voice_activity_events_def Let_def split: prod.splits)

lemma transcribe_raises:
  "chunk_stream content = Inl e \<Longrightarrow>
     transcribe_streaming_voice_activity_events streaming_recognize project_id content =
       \<lparr>returned = Inl e, printed = [], client_calls = []\<rparr>"
  by (simp add: transcribe_streaming_voice_activity_events_def)

lemma chunk_stream_short:
  "length content < 5 \<Longrightarrow> chunk_stream content = Inl ValueError"
  by (simp add: chunk_stream_def range_py_def)

subsection \<open>The request stream\<close>

lemma audio_requests_nth:
  "i < length stream \<Longrightarrow> audio_requests stream ! i = audio_request (stream ! i)"
  by (simp add: audio_requests_def)

text \<open>
  C2.  The request stream built from a project identifier and any list of chunks has
  one more request than there are chunks; its first request is the configuration
  request; every later request is not a configuration request and carries the chunk
  of the same position, so the audio requests follow in the order of the chunks with
  none added, dropped or moved.  When the chunking succeeds, this stream is the one
  handed to the client.
\<close>

theorem requests_config_first:
  "(chunk_stream content = Inr stream \<longrightarrow>
      client_calls (transcribe_streaming_voice_activity_events streaming_recognize project_id content)
        = [requests (config_request project_id) (audio_requests stream)]) \<and>
   length (requests (config_request project_id) (audio_requests stream)) = Suc (length stream) \<and>
   requests (config_request project_id) (audio_requests stream) ! 0 = config_request project_id \<and>
   is_config_request (requests (config_request project_id) (audio_requests stream) ! 0) \<and>
   (\<forall>i. 0 < i \<and> i < length (requests (config_request project_id) (audio_requests stream)) \<longrightarrow>
      \<not> is_config_request (requests (config_request project_id) (audio_requests stream) ! i) \<and>
      audio_of (requests (config_request project_id) (audio_requests stream) ! i)
        = Some (stream ! (i - 1)))"
proof -
  let ?rs = "requests (config_request project_id) (audio_requests stream)"
  have len: "length ?rs = Suc (length stream)"
    by (simp add: requests_def audio_requests_def)
  have first: "?rs ! 0 = config_request project_id"
    by (simp add: requests_def)
  have cfg: "is_config_request (?rs ! 0)"
    by (simp add: requests_def config_request_def)
  have rest: "\<not> is_config_request (?rs ! i) \<and> audio_of (?rs ! i) = Some (stream ! (i - 1))"
    if "0 < i \<and> i < length ?rs" for i
  proof -
    from that obtain j where j: "i = Suc j" and jl: "j < length stream"
      using len by (cases i) simp_all
    have "?rs ! i = audio_request (stream ! j)"
      using j jl by (simp add: requests_def audio_requests_nth)
    then show ?thesis using j by (simp add: audio_request_def)
  qed
  have call: "chunk_stream content = Inr stream \<longrightarrow>
      client_calls (transcribe_streaming_voice_activity_events streaming_recognize project_id content)
        = [?rs]"
    by (simp add: transcribe_ok)
  show ?thesis using call len first cfg rest by blast
qed

theorem requests_config_first_witness:
  "chunk_stream [1, 2, 3, 4, 5, 6 :: byte] = Inr [[1], [2], [3], [4], [5], [6]] \<and>
   client_calls (transcribe_streaming_voice_activity_events (\<lambda>_. []) ''p'' [1, 2, 3, 4, 5, 6])
     = [requests (config_request ''p'') (audio_requests [[1], [2], [3], [4], [5], [6]])] \<and>
   requests (config_request ''p'') (audio_requests [[1], [2], [3], [4], [5], [6]]) ! 0
     = config_request ''p'' \<and>
   is_config_request (requests (config_request ''p'') (audio_requests [[1], [2], [3], [4], [5], [6]]) ! 0) \<and>
   \<not> is_config_request (requests (config_request ''p'') (audio_requests [[1], [2], [3], [4], [5], [6]]) ! 2) \<and>
   audio_of (requests (config_request ''p'') (audio_requests [[1], [2], [3], [4], [5], [6]]) ! 2)
     = Some [2]"
proof -
  have c: "chunk_stream [1, 2, 3, 4, 5, 6 :: byte] = Inr [[1], [2], [3], [4], [5], [6]]"
    by (simp add: chunk_stream_def range_py_def slice_py_def range_from_step range_from_done)
  have i: "0 < (2::nat) \<and> 2 < length (requests (config_request ''p'') (audio_requests [[1], [2], [3], [4], [5], [6 :: byte]]))"
    by (simp add: requests_def audio_requests_def)
  note t = requests_config_first [of "[1, 2, 3, 4, 5, 6]" "[[1], [2], [3], [4], [5], [6]]" "\<lambda>_. []" "''p''"]
  from t c have a: "client_calls (transcribe_streaming_voice_activity_events (\<lambda>_. []) ''p'' [1, 2, 3, 4, 5, 6])
     = [requests (config_request ''p'') (audio_requests [[1], [2], [3], [4], [5], [6]])]"
    by blast
  from t i have b: "\<not> is_config_request (requests (config_request ''p'') (audio_requests [[1], [2], [3], [4], [5], [6]]) ! 2) \<and>
   audio_of (requests (config_request ''p'') (audio_requests [[1], [2], [3], [4], [5], [6]]) ! 2)
     = Some (([[1], [2], [3], [4], [5], [6]] :: byte list list) ! (2 - 1))"
    by blast
  have n: "([[1], [2], [3], [4], [5], [6]] :: byte list list) ! (2 - 1) = [2]" by simp
  from t have d: "requests (config_request ''p'') (audio_requests [[1], [2], [3], [4], [5], [6]]) ! 0
     = config_request ''p'' \<and>
   is_config_request (requests (config_request ''p'') (audio_requests [[1], [2], [3], [4], [5], [6]]) ! 0)"
    by blast
  show ?thesis using c a b d unfolding n by blast
qed

subsection \<open>The configuration request\<close>

text \<open>
  C8.  For every project identifier \<open>p\<close>, the configuration request names the
  recognizer \<open>projects/p/locations/global/recognizers/_\<close> and carries a streaming
  configuration whose recognition configuration has auto-detect decoding, the
  language codes \<open>["en-US"]\<close> and the model \<open>long\<close>, and whose streaming features
  have voice-activity events enabled; it is the first request of the stream.
\<close>

theorem config_request_fields:
  "recognizer (config_request project_id)
     = ''projects/'' @ project_id @ ''/locations/global/recognizers/_'' \<and>
   (\<exists>sc. streaming_request (config_request project_id) = Streaming_config sc \<and>
      auto_decoding_config (config sc) = Some AutoDetectDecodingConfig \<and>
      language_codes (config sc) = [''en-US''] \<and>
      model (config sc) = ''long'' \<and>
      enable_voice_activity_events (streaming_features sc) = True) \<and>
   requests (config_request project_id) (audio_requests stream) ! 0 = config_request project_id"
  by (simp add: config_request_def streaming_config_def recognition_config_def
        streaming_features_value_def requests_def)

subsection \<open>Buffers shorter than five bytes\<close>

text \<open>
  C6.  For every buffer shorter than 5 bytes, the empty one included, the chunk
  length is 0, \<open>range\<close> raises \<open>ValueError\<close>, and the function ends with that same
  exception: nothing was printed and the client was never called, so no request was
  emitted.
\<close>

theorem short_buffer_raises:
  "length content < 5 \<Longrightarrow>
     length content div 5 = 0 \<and>
     range_py 0 (length content) (length content div 5) = Inl ValueError \<and>
     chunk_stream content = Inl ValueError \<and>
     transcribe_streaming_voice_activity_events streaming_recognize project_id content
       = \<lparr>returned = Inl ValueError, printed = [], client_calls = []\<rparr>"
  by (simp add: chunk_stream_short transcribe_raises range_py_def)

theorem short_buffer_raises_witness:
  "length ([] :: byte list) < 5 \<and>
   chunk_stream ([] :: byte list) = Inl ValueError \<and>
   transcribe_streaming_voice_activity_events (\<lambda>_. []) ''p'' []
     = \<lparr>returned = Inl ValueError, printed = [], client_calls = []\<rparr> \<and>
   length [1, 2, 3, 4 :: byte] < 5 \<and>
   chunk_stream [1, 2, 3, 4 :: byte] = Inl ValueError \<and>
   transcribe_streaming_voice_activity_events (\<lambda>_. []) ''p'' [1, 2, 3, 4]
     = \<lparr>returned = Inl ValueError, printed = [], client_calls = []\<rparr>"
proof -
  have h0: "length ([] :: byte list) < 5" by simp
  have h4: "length [1, 2, 3, 4 :: byte] < 5" by simp
  show ?thesis
    using h0 h4
      short_buffer_raises [OF h0, of "\<lambda>_. []" "''p''"]
      short_buffer_raises [OF h4, of "\<lambda>_. []" "''p''"]
    by blast
qed

subsection \<open>The responses returned\<close>

text \<open>
  C4, as stated, fails: for the single response whose only result has no
  alternative, the loop raises \<open>IndexError\<close> and returns no list.
\<close>

theorem empty_alternatives_nothing_returned:
  "fst (consume_responses
     [\<lparr>results = [\<lparr>alternatives = []\<rparr>], speech_event_type = SPEECH_EVENT_TYPE_UNSPECIFIED\<rparr>])
     = Inl IndexError \<and>
   fst (consume_responses
     [\<lparr>results = [\<lparr>alternatives = []\<rparr>], speech_event_type = SPEECH_EVENT_TYPE_UNSPECIFIED\<rparr>])
     \<noteq> Inr [\<lparr>results = [\<lparr>alternatives = []\<rparr>], speech_event_type = SPEECH_EVENT_TYPE_UNSPECIFIED\<rparr>]"
  by (simp add: consume_responses_def loop_body_def)

text \<open>
  C4, amended.  For every finite sequence of responses in which every result has at
  least one alternative, the loop returns the list of exactly those responses in the
  order of arrival, and this list is what the function returns to its caller.
\<close>

theorem responses_returned_in_order:
  assumes "\<forall>r \<in> set rs. \<forall>res \<in> set (results r). alternatives res \<noteq> []"
  shows "fst (consume_responses rs) = Inr rs \<and>
         (chunk_stream content = Inr stream \<and>
          streaming_recognize (requests (config_request project_id) (audio_requests stream)) = rs
            \<longrightarrow> returned (transcribe_streaming_voice_activity_events
                            streaming_recognize project_id content) = Inr rs)"
  using consume_responses_ok [OF assms] by (simp add: transcribe_ok)

theorem responses_returned_in_order_witness:
  "chunk_stream [1, 2, 3, 4, 5 :: byte] = Inr [[1], [2], [3], [4], [5]] \<and>
   fst (consume_responses
          [\<lparr>results = [\<lparr>alternatives = [\<lparr>transcript = ''a''\<rparr>, \<lparr>transcript = ''b''\<rparr>]\<rparr>],
             speech_event_type = SPEECH_EVENT_TYPE_UNSPECIFIED\<rparr>,
           \<lparr>results = [], speech_event_type = SPEECH_ACTIVITY_END\<rparr>])
     = Inr [\<lparr>results = [\<lparr>alternatives = [\<lparr>transcript = ''a''\<rparr>, \<lparr>transcript = ''b''\<rparr>]\<rparr>],
              speech_event_type = SPEECH_EVENT_TYPE_UNSPECIFIED\<rparr>,
            \<lparr>results = [], speech_event_type = SPEECH_ACTIVITY_END\<rparr>] \<and>
   returned (transcribe_streaming_voice_activity_events
       (\<lambda>_. [\<lparr>results = [\<lparr>alternatives = [\<lparr>transcript = ''a''\<rparr>, \<lparr>transcript = ''b''\<rparr>]\<rparr>],
                speech_event_type = SPEECH_EVENT_TYPE_UNSPECIFIED\<rparr>,
              \<lparr>results = [], speech_event_type = SPEECH_ACTIVITY_END\<rparr>])
       ''p'' [1, 2, 3, 4, 5])
     = Inr [\<lparr>results = [\<lparr>alternatives = [\<lparr>transcript = ''a''\<rparr>, \<lparr>transcript = ''b''\<rparr>]\<rparr>],
              speech_event_type = SPEECH_EVENT_TYPE_UNSPECIFIED\<rparr>,
            \<lparr>results = [], speech_event_type = SPEECH_ACTIVITY_END\<rparr>]"
proof -
  let ?rs = "[\<lparr>results = [\<lparr>alternatives = [\<lparr>transcript = ''a''\<rparr>, \<lparr>transcript = ''b''\<rparr>]\<rparr>],
                speech_event_type = SPEECH_EVENT_TYPE_UNSPECIFIED\<rparr>,
              \<lparr>results = [], speech_event_type = SPEECH_ACTIVITY_END\<rparr>]"
  have h: "\<forall>r \<in> set ?rs. \<forall>res \<in> set (results r). alternatives res \<noteq> []" by simp
  have c: "chunk_stream [1, 2, 3, 4, 5 :: byte] = Inr [[1], [2], [3], [4], [5]]"
    by (simp add: chunk_stream_def range_py_def slice_py_def range_from_step range_from_done)
  note t = responses_returned_in_order
    [OF h, of "[1, 2, 3, 4, 5]" "[[1], [2], [3], [4], [5]]" "\<lambda>_. ?rs" "''p''"]
  from t c have r: "returned (transcribe_streaming_voice_activity_events (\<lambda>_. ?rs) ''p'' [1, 2, 3, 4, 5])
      = Inr ?rs" by blast
  from t have f: "fst (consume_responses ?rs) = Inr ?rs" by blast
  show ?thesis using c f r by blast
qed

subsection \<open>Begin, transcript, end\<close>

text \<open>
  C5.  For the responses begin of speech, a result whose top alternative is
  \<open>hello\<close>, end of speech, the loop prints the lines \<open>Speech started.\<close>,
  \<open>Transcript: hello\<close>, \<open>Speech ended.\<close> in this order and nothing else, and
  returns the list of the 3 responses.
\<close>

theorem begin_hello_end:
  "consume_responses
     [\<lparr>results = [], speech_event_type = SPEECH_ACTIVITY_BEGIN\<rparr>,
      \<lparr>results = [\<lparr>alternatives = [\<lparr>transcript = ''hello''\<rparr>]\<rparr>],
         speech_event_type = SPEECH_EVENT_TYPE_UNSPECIFIED\<rparr>,
      \<lparr>results = [], speech_event_type = SPEECH_ACTIVITY_END\<rparr>]
   = (Inr [\<lparr>results = [], speech_event_type = SPEECH_ACTIVITY_BEGIN\<rparr>,
           \<lparr>results = [\<lparr>alternatives = [\<lparr>transcript = ''hello''\<rparr>]\<rparr>],
              speech_event_type = SPEECH_EVENT_TYPE_UNSPECIFIED\<rparr>,
           \<lparr>results = [], speech_event_type = SPEECH_ACTIVITY_END\<rparr>],
      [''Speech started.'', ''Transcript: hello'', ''Speech ended.'']) \<and>
   length [\<lparr>results = [], speech_event_type = SPEECH_ACTIVITY_BEGIN\<rparr>,
           \<lparr>results = [\<lparr>alternatives = [\<lparr>transcript = ''hello''\<rparr>]\<rparr>],
              speech_event_type = SPEECH_EVENT_TYPE_UNSPECIFIED\<rparr>,
           \<lparr>results = [], speech_event_type = SPEECH_ACTIVITY_END\<rparr>] = 3"
  by (simp add: consume_responses_def loop_body_def print_def)

subsection \<open>No state across responses\<close>

text \<open>
  C9.  From any state, the body of the loop appends the response to the collected
  list and appends to the printed lines the output of that response alone; whether it
  raises depends on that response alone.  So a loop that ends normally has printed the
  outputs of its responses one after the other.  The output of a response, whatever
  its event type and however many results it has, is the line of its begin event if
  it has one, the line of its end event if it has one, and then one transcript line,
  with the text of the first alternative, for every result in order up to the first
  result that has no alternative (for every result, when each has an alternative); it
  raises exactly when some result has no alternative.  In particular a response with
  an event and a result prints the event line and then the transcript line.
\<close>

theorem response_handling_stateless:
  "loop_body r st =
     (\<lparr>responses = responses st @ [r], stdout = stdout st @ response_output r\<rparr>,
      response_error r) \<and>
   (snd (response_loop rs st) = None \<longrightarrow>
      stdout (fst (response_loop rs st)) = stdout st @ concat (map response_output rs)) \<and>
   response_output r =
     (if speech_event_type r = SPEECH_ACTIVITY_BEGIN then [''Speech started.''] else []) @
     (if speech_event_type r = SPEECH_ACTIVITY_END then [''Speech ended.''] else []) @
     map (\<lambda>res. ''Transcript: '' @ transcript (hd (alternatives res)))
       (takeWhile (\<lambda>res. alternatives res \<noteq> []) (results r)) \<and>
   response_error r
     = (if \<exists>res \<in> set (results r). alternatives res = [] then Some IndexError else None) \<and>
   ((\<forall>res \<in> set (results r). alternatives res \<noteq> []) \<longrightarrow>
      response_output r =
        (if speech_event_type r = SPEECH_ACTIVITY_BEGIN then [''Speech started.''] else []) @
        (if speech_event_type r = SPEECH_ACTIVITY_END then [''Speech ended.''] else []) @
        map (\<lambda>res. ''Transcript: '' @ transcript (hd (alternatives res))) (results r)) \<and>
   (speech_event_type r = SPEECH_ACTIVITY_BEGIN \<and> results r = [res] \<and>
    alternatives res = a # alts \<longrightarrow>
      response_output r = [''Speech started.'', ''Transcript: '' @ transcript a]) \<and>
   (speech_event_type r = SPEECH_ACTIVITY_END \<and> results r = [res] \<and>
    alternatives res = a # alts \<longrightarrow>
      response_output r = [''Speech ended.'', ''Transcript: '' @ transcript a])"
proof -
  have all_ok: "response_output r =
        (if speech_event_type r = SPEECH_ACTIVITY_BEGIN then [''Speech started.''] else []) @
        (if speech_event_type r = SPEECH_ACTIVITY_END then [''Speech ended.''] else []) @
        map (\<lambda>res. ''Transcript: '' @ transcript (hd (alternatives res))) (results r)"
    if "\<forall>res \<in> set (results r). alternatives res \<noteq> []"
  proof -
    from that have tw: "takeWhile (\<lambda>res. alternatives res \<noteq> []) (results r) = results r"
      by (simp add: takeWhile_eq_all_conv)
    show ?thesis unfolding response_output_lines tw by (rule refl)
  qed
  have both_b: "response_output r = [''Speech started.'', ''Transcript: '' @ transcript a]"
    if "speech_event_type r = SPEECH_ACTIVITY_BEGIN \<and> results r = [res] \<and> alternatives res = a # alts"
    using that by (simp add: response_output_lines)
  have both_e: "response_output r = [''Speech ended.'', ''Transcript: '' @ transcript a]"
    if "speech_event_type r = SPEECH_ACTIVITY_END \<and> results r = [res] \<and> alternatives res = a # alts"
    using that by (simp add: response_output_lines)
  show ?thesis
    using loop_body_eq [of r st] response_loop_stdout_ok [of rs st]
      response_output_lines [of r] response_error_iff [of r] all_ok both_b both_e
    by blast
qed

theorem response_handling_stateless_witness:
  "response_output
     \<lparr>results = [\<lparr>alternatives = [\<lparr>transcript = ''hi''\<rparr>, \<lparr>transcript = ''high''\<rparr>]\<rparr>,
                 \<lparr>alternatives = [\<lparr>transcript = ''there''\<rparr>]\<rparr>],
        speech_event_type = SPEECH_ACTIVITY_BEGIN\<rparr>
     = [''Speech started.'', ''Transcript: hi'', ''Transcript: there''] \<and>
   loop_body
     \<lparr>results = [\<lparr>alternatives = [\<lparr>transcript = ''hi''\<rparr>, \<lparr>transcript = ''high''\<rparr>]\<rparr>,
                 \<lparr>alternatives = [\<lparr>transcript = ''there''\<rparr>]\<rparr>],
        speech_event_type = SPEECH_ACTIVITY_BEGIN\<rparr>
     \<lparr>responses = [], stdout = [''earlier'']\<rparr>
     = (\<lparr>responses =
           [\<lparr>results = [\<lparr>alternatives = [\<lparr>transcript = ''hi''\<rparr>, \<lparr>transcript = ''high''\<rparr>]\<rparr>,
                        \<lparr>alternatives = [\<lparr>transcript = ''there''\<rparr>]\<rparr>],
               speech_event_type = SPEECH_ACTIVITY_BEGIN\<rparr>],
         stdout = [''earlier'', ''Speech started.'', ''Transcript: hi'', ''Transcript: there'']\<rparr>,
        None) \<and>
   snd (response_loop
          [\<lparr>results = [\<lparr>alternatives = [\<lparr>transcript = ''hi''\<rparr>, \<lparr>transcript = ''high''\<rparr>]\<rparr>,
                      \<lparr>alternatives = [\<lparr>transcript = ''there''\<rparr>]\<rparr>],
             speech_event_type = SPEECH_ACTIVITY_BEGIN\<rparr>,
           \<lparr>results = [], speech_event_type = SPEECH_ACTIVITY_END\<rparr>]
          \<lparr>responses = [], stdout = [''earlier'']\<rparr>) = None \<and>
   stdout (fst (response_loop
          [\<lparr>results = [\<lparr>alternatives = [\<lparr>transcript = ''hi''\<rparr>, \<lparr>transcript = ''high''\<rparr>]\<rparr>,
                      \<lparr>alternatives = [\<lparr>transcript = ''there''\<rparr>]\<rparr>],
             speech_event_type = SPEECH_ACTIVITY_BEGIN\<rparr>,
           \<lparr>results = [], speech_event_type = SPEECH_ACTIVITY_END\<rparr>]
          \<lparr>responses = [], stdout = [''earlier'']\<rparr>))
     = [''earlier'', ''Speech started.'', ''Transcript: hi'', ''Transcript: there'',
        ''Speech ended.'']"
proof -
  let ?r = "\<lparr>results = [\<lparr>alternatives = [\<lparr>transcript = ''hi''\<rparr>, \<lparr>transcript = ''high''\<rparr>]\<rparr>,
                         \<lparr>alternatives = [\<lparr>transcript = ''there''\<rparr>]\<rparr>],
              speech_event_type = SPEECH_ACTIVITY_BEGIN\<rparr>"
  let ?e = "\<lparr>results = [], speech_event_type = SPEECH_ACTIVITY_END\<rparr>"
  let ?st = "\<lparr>responses = [], stdout = [''earlier'']\<rparr>"
  note t = response_handling_stateless [of ?r ?st "[?r, ?e]"]
  have h: "\<forall>res \<in> set (results ?r). alternatives res \<noteq> []" by simp
  from t h have "response_output ?r =
        (if speech_event_type ?r = SPEECH_ACTIVITY_BEGIN then [''Speech started.''] else []) @
        (if speech_event_type ?r = SPEECH_ACTIVITY_END then [''Speech ended.''] else []) @
        map (\<lambda>res. ''Transcript: '' @ transcript (hd (alternatives res))) (results ?r)"
    by blast
  then have out: "response_output ?r = [''Speech started.'', ''Transcript: hi'', ''Transcript: there'']"
    by simp
  from t have "response_error ?r
     = (if \<exists>res \<in> set (results ?r). alternatives res = [] then Some IndexError else None)"
    by blast
  then have err: "response_error ?r = None" by simp
  from t have "loop_body ?r ?st =
     (\<lparr>responses = responses ?st @ [?r], stdout = stdout ?st @ response_output ?r\<rparr>,
      response_error ?r)" by blast
  then have body: "loop_body ?r ?st =
      (\<lparr>responses = [?r],
         stdout = [''earlier'', ''Speech started.'', ''Transcript: hi'', ''Transcript: there'']\<rparr>,
       None)"
    by (simp add: out err)
  have ok: "snd (response_loop [?r, ?e] ?st) = None"
    by (simp add: loop_body_def print_def)
  have oute: "response_output ?e = [''Speech ended.'']"
    by (simp add: response_output_def loop_body_def print_def)
  have "stdout (fst (response_loop [?r, ?e] ?st))
          = stdout ?st @ concat (map response_output [?r, ?e])"
    using t ok by blast
  then have all: "stdout (fst (response_loop [?r, ?e] ?st))
          = [''earlier'', ''Speech started.'', ''Transcript: hi'', ''Transcript: there'',
             ''Speech ended.'']"
    by (simp add: out oute)
  show ?thesis using out body ok all by blast
qed

subsection \<open>A result without alternatives\<close>

text \<open>
  C10.  The body of the loop raises \<open>IndexError\<close> exactly when some result of the
  response has an empty list of alternatives; the response has been appended to the
  collected list all the same.  A loop over responses returns them when every result
  has an alternative, and raises \<open>IndexError\<close> when some result has none.
\<close>

theorem empty_alternatives_raise:
  "snd (loop_body r st)
     = (if \<exists>res \<in> set (results r). alternatives res = [] then Some IndexError else None) \<and>
   responses (fst (loop_body r st)) = responses st @ [r] \<and>
   ((\<exists>r \<in> set rs. \<exists>res \<in> set (results r). alternatives res = []) \<longrightarrow>
      fst (consume_responses rs) = Inl IndexError) \<and>
   ((\<forall>r \<in> set rs. \<forall>res \<in> set (results r). alternatives res \<noteq> []) \<longrightarrow>
      fst (consume_responses rs) = Inr rs)"
  using consume_responses_raises [of rs] consume_responses_ok [of rs]
  by (simp add: loop_body_error loop_body_responses)

theorem empty_alternatives_raise_witness:
  "snd (loop_body
          \<lparr>results = [\<lparr>alternatives = []\<rparr>], speech_event_type = SPEECH_ACTIVITY_BEGIN\<rparr>
          \<lparr>responses = [], stdout = []\<rparr>) = Some IndexError \<and>
   responses (fst (loop_body
          \<lparr>results = [\<lparr>alternatives = []\<rparr>], speech_event_type = SPEECH_ACTIVITY_BEGIN\<rparr>
          \<lparr>responses = [], stdout = []\<rparr>))
     = [\<lparr>results = [\<lparr>alternatives = []\<rparr>], speech_event_type = SPEECH_ACTIVITY_BEGIN\<rparr>] \<and>
   fst (consume_responses
          [\<lparr>results = [\<lparr>alternatives = []\<rparr>], speech_event_type = SPEECH_ACTIVITY_BEGIN\<rparr>])
     = Inl IndexError"
  using empty_alternatives_raise
    [of "\<lparr>results = [\<lparr>alternatives = []\<rparr>], speech_event_type = SPEECH_ACTIVITY_BEGIN\<rparr>"
        "\<lparr>responses = [], stdout = []\<rparr>"
        "[\<lparr>results = [\<lparr>alternatives = []\<rparr>], speech_event_type = SPEECH_ACTIVITY_BEGIN\<rparr>]"]
  by simp

end
